theory Spec2Isabelle
  imports Main
begin

section \<open>The pomodoro timer of App.tsx\<close>

text \<open>
  The component \<open>App\<close> holds five \<open>useState\<close> cells and one \<open>useRef\<close> cell, registers
  four effects that matter for the timer (the fifth only writes the title of the
  document), and offers three click handlers. The model keeps
  the cells in a record, the ref and the resources owned by the effects (the interval, the
  flash timeout, the number of calls of \<open>playBeep\<close>) in a second record, and writes one
  render-and-effects pass of React as the function \<open>commit\<close>.
\<close>

subsection \<open>Data\<close>

datatype Phase = Focus | Break

definition FOCUS_DURATION :: int where
  "FOCUS_DURATION = 25 * 60"

definition BREAK_DURATION :: int where
  "BREAK_DURATION = 5 * 60"

text \<open>The \<open>useState\<close> cells, in the order of the source.\<close>

record hooks =
  phase :: Phase
  timeLeft :: int
  isRunning :: bool
  completedPomodoros :: int
  flash :: bool

text \<open>
  The whole component: \<open>st\<close> holds the current value of every cell (with every queued
  update applied), \<open>rendered\<close> the values that the last finished effect pass saw (\<open>None\<close>
  before the component is mounted; React compares dependency lists against these),
  \<open>interval\<close> and \<open>flashTimeout\<close> the delay in milliseconds of the pending
  \<open>setInterval\<close> and \<open>setTimeout\<close>, if one is pending, and \<open>beeps\<close> counts the calls
  of \<open>playBeep\<close>.
\<close>

record app =
  st :: hooks
  autoRestartRef :: bool
  rendered :: "hooks option"
  interval :: "nat option"
  flashTimeout :: "nat option"
  beeps :: nat

definition initial :: app where
  "initial =
     \<lparr>st = \<lparr>phase = Focus, timeLeft = FOCUS_DURATION, isRunning = False,
             completedPomodoros = 0, flash = False\<rparr>,
      autoRestartRef = False, rendered = None, interval = None, flashTimeout = None,
      beeps = 0\<rparr>"

subsection \<open>State setters and the audio cue\<close>

text \<open>Every setter takes an updater; \<open>setX (\<lambda>_. v)\<close> is the call \<open>setX(v)\<close>.\<close>

definition setPhase :: "(Phase \<Rightarrow> Phase) \<Rightarrow> app \<Rightarrow> app" where
  "setPhase f w = w\<lparr>st := (st w)\<lparr>phase := f (phase (st w))\<rparr>\<rparr>"

definition setTimeLeft :: "(int \<Rightarrow> int) \<Rightarrow> app \<Rightarrow> app" where
  "setTimeLeft f w = w\<lparr>st := (st w)\<lparr>timeLeft := f (timeLeft (st w))\<rparr>\<rparr>"

definition setIsRunning :: "(bool \<Rightarrow> bool) \<Rightarrow> app \<Rightarrow> app" where
  "setIsRunning f w = w\<lparr>st := (st w)\<lparr>isRunning := f (isRunning (st w))\<rparr>\<rparr>"

definition setCompletedPomodoros :: "(int \<Rightarrow> int) \<Rightarrow> app \<Rightarrow> app" where
  "setCompletedPomodoros f w =
     w\<lparr>st := (st w)\<lparr>completedPomodoros := f (completedPomodoros (st w))\<rparr>\<rparr>"

definition setFlash :: "(bool \<Rightarrow> bool) \<Rightarrow> app \<Rightarrow> app" where
  "setFlash f w = w\<lparr>st := (st w)\<lparr>flash := f (flash (st w))\<rparr>\<rparr>"

text \<open>
  \<open>playBeep\<close> swallows every failure of the audio context, so the only thing the timer
  can observe of it is that it was called.
\<close>

definition playBeep :: "app \<Rightarrow> app" where
  "playBeep w = w\<lparr>beeps := Suc (beeps w)\<rparr>"

subsection \<open>The effects\<close>

text \<open>
  An effect body reads the values of the render it belongs to (the argument \<open>s\<close>), reads
  and writes the ref directly, and queues state updates, which land in \<open>st\<close>. The cleanup
  of the previous run comes first.
\<close>

definition countdownEffect :: "hooks \<Rightarrow> app \<Rightarrow> app" where
  "countdownEffect s w =
     (let w1 = w\<lparr>interval := None\<rparr>
      in if \<not> isRunning s then w1 else w1\<lparr>interval := Some 1000\<rparr>)"

definition expiryEffect :: "hooks \<Rightarrow> app \<Rightarrow> app" where
  "expiryEffect s w =
     (if timeLeft s \<noteq> 0 \<or> \<not> isRunning s then w
      else
        let w1 = setIsRunning (\<lambda>_. False) w;
            w2 = w1\<lparr>autoRestartRef := True\<rparr>;
            w3 = playBeep w2;
            w4 = setFlash (\<lambda>_. True) w3
        in if phase s = Focus
           then setTimeLeft (\<lambda>_. BREAK_DURATION) (setPhase (\<lambda>_. Break) w4)
           else setTimeLeft (\<lambda>_. FOCUS_DURATION)
                  (setPhase (\<lambda>_. Focus) (setCompletedPomodoros (\<lambda>c. c + 1) w4)))"

definition autoRestartEffect :: "hooks \<Rightarrow> app \<Rightarrow> app" where
  "autoRestartEffect s w =
     (if \<not> autoRestartRef w \<or> isRunning s then w
      else setIsRunning (\<lambda>_. True) (w\<lparr>autoRestartRef := False\<rparr>))"

definition flashEffect :: "hooks \<Rightarrow> app \<Rightarrow> app" where
  "flashEffect s w =
     (let w1 = w\<lparr>flashTimeout := None\<rparr>
      in if \<not> flash s then w1 else w1\<lparr>flashTimeout := Some 800\<rparr>)"

text \<open>
  The dependency lists: an effect runs on mount and whenever one of its dependencies
  differs from the previous render.
\<close>

definition countdownDeps :: "hooks option \<Rightarrow> hooks \<Rightarrow> bool" where
  "countdownDeps prev s =
     (case prev of None \<Rightarrow> True | Some c \<Rightarrow> isRunning c \<noteq> isRunning s)"

definition expiryDeps :: "hooks option \<Rightarrow> hooks \<Rightarrow> bool" where
  "expiryDeps prev s =
     (case prev of None \<Rightarrow> True
      | Some c \<Rightarrow> timeLeft c \<noteq> timeLeft s \<or> isRunning c \<noteq> isRunning s \<or> phase c \<noteq> phase s)"

definition autoRestartDeps :: "hooks option \<Rightarrow> hooks \<Rightarrow> bool" where
  "autoRestartDeps prev s =
     (case prev of None \<Rightarrow> True
      | Some c \<Rightarrow> isRunning c \<noteq> isRunning s \<or> timeLeft c \<noteq> timeLeft s)"

definition flashDeps :: "hooks option \<Rightarrow> hooks \<Rightarrow> bool" where
  "flashDeps prev s = (case prev of None \<Rightarrow> True | Some c \<Rightarrow> flash c \<noteq> flash s)"

text \<open>
  One render with its effect pass: the render sees \<open>s = st w\<close>, the effects whose
  dependencies changed run in the order of the source, and the render becomes the
  previous one.
\<close>

definition commit :: "app \<Rightarrow> app" where
  "commit w =
     (let s = st w; prev = rendered w;
          w1 = (if countdownDeps prev s then countdownEffect s w else w);
          w2 = (if expiryDeps prev s then expiryEffect s w1 else w1);
          w3 = (if autoRestartDeps prev s then autoRestartEffect s w2 else w2);
          w4 = (if flashDeps prev s then flashEffect s w3 else w3)
      in w4\<lparr>rendered := Some s\<rparr>)"

definition stable :: "app \<Rightarrow> bool" where
  "stable w = (rendered w = Some (st w))"

text \<open>
  Whether the next pass runs the body of the expiry effect, and whether it runs the body
  of the auto-restart effect when the expiry effect does not.
\<close>

definition expires :: "app \<Rightarrow> bool" where
  "expires w =
     (expiryDeps (rendered w) (st w) \<and> timeLeft (st w) = 0 \<and> isRunning (st w))"

definition restarts :: "app \<Rightarrow> bool" where
  "restarts w =
     (autoRestartDeps (rendered w) (st w) \<and> autoRestartRef w \<and> \<not> isRunning (st w))"

text \<open>The number of passes that \<open>settle\<close> still needs, at most.\<close>

definition passes :: "app \<Rightarrow> nat" where
  "passes w =
     (if stable w then 0
      else if isRunning (st w) then (if timeLeft (st w) = 0 then 3 else 1)
      else if autoRestartRef w then (if timeLeft (st w) = 0 then 5 else 2)
      else 1)"

text \<open>React renders again as long as an effect has changed the state.\<close>

function settle :: "app \<Rightarrow> app" where
  "settle w = (if stable w then w else settle (commit w))"
  by pat_completeness auto

subsection \<open>Events\<close>

text \<open>
  The callback of the interval and the callback of the flash timeout: both use only
  constants and functional updaters, so they act on the current cells.
\<close>

definition tickCallback :: "app \<Rightarrow> app" where
  "tickCallback w = setTimeLeft (\<lambda>t. if t > 0 then t - 1 else 0) w"

definition flashCallback :: "app \<Rightarrow> app" where
  "flashCallback w = setFlash (\<lambda>_. False) w"

text \<open>
  The click handlers are closures of the last render. \<open>handleStartPause\<close> uses a
  functional updater and so acts on the current cell. \<open>handleSkip\<close> reads \<open>phase\<close> and
  \<open>handleReset\<close> reads \<open>isFocus\<close>, constants that the last render computed: while a
  render is pending these are the values that render saw, not the cells. (Before the
  first render there is nothing to click; \<open>lastRender\<close> is the cells themselves there.)
\<close>

definition lastRender :: "app \<Rightarrow> hooks" where
  "lastRender w = (case rendered w of None \<Rightarrow> st w | Some c \<Rightarrow> c)"

definition handleStartPause :: "app \<Rightarrow> app" where
  "handleStartPause w = setIsRunning (\<lambda>r. \<not> r) w"

definition handleSkip :: "app \<Rightarrow> app" where
  "handleSkip w =
     (let w1 = w\<lparr>autoRestartRef := False\<rparr>
      in if phase (lastRender w) = Focus
         then setTimeLeft (\<lambda>_. BREAK_DURATION) (setPhase (\<lambda>_. Break) w1)
         else setTimeLeft (\<lambda>_. FOCUS_DURATION) (setPhase (\<lambda>_. Focus) w1))"

definition isFocus :: "hooks \<Rightarrow> bool" where
  "isFocus s = (phase s = Focus)"

definition handleReset :: "app \<Rightarrow> app" where
  "handleReset w =
     (let w1 = w\<lparr>autoRestartRef := False\<rparr>;
          w2 = setIsRunning (\<lambda>_. False) w1
      in setTimeLeft
           (\<lambda>_. if isFocus (lastRender w) then FOCUS_DURATION else BREAK_DURATION) w2)"

text \<open>
  A timer callback is delivered only while its timer is pending; a timeout is spent once
  it has fired.
\<close>

datatype event = Tick | FlashExpired | StartPause | Skip | Reset

fun handler :: "event \<Rightarrow> app \<Rightarrow> app" where
  "handler Tick w = (if interval w = None then w else tickCallback w)"
| "handler FlashExpired w =
     (if flashTimeout w = None then w else flashCallback (w\<lparr>flashTimeout := None\<rparr>))"
| "handler StartPause w = handleStartPause w"
| "handler Skip w = handleSkip w"
| "handler Reset w = handleReset w"

text \<open>An event with everything React does in response to it.\<close>

definition dispatch :: "event \<Rightarrow> app \<Rightarrow> app" where
  "dispatch e w = settle (handler e w)"

text \<open>
  The states the component can be in: the initial one, and from any of them the state
  after one more render pass or, once the component has rendered, after the handler of
  an event. An event may arrive while a pass is pending: the expiry effect queues its
  updates, and a click can come before the render that shows them.
\<close>

inductive reachable :: "app \<Rightarrow> bool" where
  start: "reachable initial"
| pass: "reachable w \<Longrightarrow> reachable (commit w)"
| event: "reachable w \<Longrightarrow> rendered w \<noteq> None \<Longrightarrow> reachable (handler e w)"

text \<open>
  The orderly runs, a part of the above: every event arrives when no pass is pending,
  that is, after the passes of the event before it are through.
\<close>

inductive orderly :: "app \<Rightarrow> bool" where
  start: "orderly initial"
| pass: "orderly w \<Longrightarrow> orderly (commit w)"
| event: "orderly w \<Longrightarrow> stable w \<Longrightarrow> orderly (handler e w)"

subsection \<open>Derived values\<close>

definition initialDuration :: "hooks \<Rightarrow> int" where
  "initialDuration s = (if isFocus s then FOCUS_DURATION else BREAK_DURATION)"

text \<open>
  The three labels of the main button, as UTF-16 code units: U+6682 U+505C (pause),
  U+5F00 U+59CB (start), U+7EE7 U+7EED (resume).
\<close>

definition LABEL_PAUSE :: "nat list" where
  "LABEL_PAUSE = [0x6682, 0x505C]"

definition LABEL_START :: "nat list" where
  "LABEL_START = [0x5F00, 0x59CB]"

definition LABEL_RESUME :: "nat list" where
  "LABEL_RESUME = [0x7EE7, 0x7EED]"

definition startLabel :: "hooks \<Rightarrow> nat list" where
  "startLabel s =
     (if isRunning s then LABEL_PAUSE
      else if timeLeft s = initialDuration s then LABEL_START
      else LABEL_RESUME)"

text \<open>The remainder operator of JavaScript takes the sign of the dividend.\<close>

definition js_rem :: "int \<Rightarrow> int \<Rightarrow> int" where
  "js_rem a b = sgn a * (\<bar>a\<bar> mod \<bar>b\<bar>)"

definition cyclePos :: "hooks \<Rightarrow> int" where
  "cyclePos s = js_rem (completedPomodoros s) 4"

definition filledDots :: "hooks \<Rightarrow> int" where
  "filledDots s = (if completedPomodoros s > 0 \<and> cyclePos s = 0 then 4 else cyclePos s)"

subsection \<open>Predicates on states\<close>

text \<open>The time left lies between zero and the full length of the current phase.\<close>

definition bounded :: "hooks \<Rightarrow> bool" where
  "bounded s = (0 \<le> timeLeft s \<and> timeLeft s \<le> initialDuration s)"

text \<open>
  What every reachable state satisfies: the time left lies between zero and the length
  of a focus phase; the interval is pending exactly when the last render was running;
  and when the last render showed zero while running, the cells are in the other phase.
\<close>

definition coherent :: "app \<Rightarrow> bool" where
  "coherent w =
     (0 \<le> timeLeft (st w) \<and> timeLeft (st w) \<le> FOCUS_DURATION \<and>
      (case rendered w of
         None \<Rightarrow> interval w = None
       | Some c \<Rightarrow>
           interval w = (if isRunning c then Some 1000 else None) \<and>
           (if timeLeft c = 0 \<and> isRunning c then phase (st w) \<noteq> phase c else True)))"

text \<open>
  What every state of an orderly run satisfies: the bound; the interval is pending
  exactly when the last render was running; a time of zero appears only while running,
  in a state whose last render did not show zero yet; the restart signal is raised only
  while stopped after a render that was running; the count of completed sessions is not
  negative.
\<close>

definition consistent :: "app \<Rightarrow> bool" where
  "consistent w =
     (bounded (st w) \<and> 0 \<le> completedPomodoros (st w) \<and>
      (case rendered w of
         None \<Rightarrow> interval w = None \<and> timeLeft (st w) \<noteq> 0 \<and> \<not> autoRestartRef w
       | Some c \<Rightarrow>
           interval w = (if isRunning c then Some 1000 else None) \<and>
           (timeLeft (st w) \<noteq> 0 \<or> isRunning (st w) \<and> timeLeft c \<noteq> 0) \<and>
           (\<not> autoRestartRef w \<or> \<not> isRunning (st w) \<and> isRunning c)))"

text \<open>The state after \<open>n\<close> ticks, each with its effects.\<close>

definition ticks :: "nat \<Rightarrow> app \<Rightarrow> app" where
  "ticks n w = (dispatch Tick ^^ n) w"


subsection \<open>The state after a natural expiry, and three sample states\<close>

text \<open>
  What the cells hold once a natural expiry and the restart that follows it are through:
  the other phase at its full length, running, the flash on, and one more completed
  session when the phase that ended was a break.
\<close>

definition expired :: "hooks \<Rightarrow> hooks" where
  "expired s =
     (if phase s = Focus
      then s\<lparr>isRunning := True, flash := True, phase := Break, timeLeft := BREAK_DURATION\<rparr>
      else s\<lparr>isRunning := True, flash := True,
             completedPomodoros := completedPomodoros s + 1, phase := Focus,
             timeLeft := FOCUS_DURATION\<rparr>)"

text \<open>
  The running break that a fresh component reaches by a click on skip and a click on
  start (each with its passes), and a break whose countdown has just rendered zero.
\<close>

definition breakRunning :: app where
  "breakRunning = dispatch StartPause (dispatch Skip (commit initial))"

text \<open>
  A fresh component after a click on start and 1500 ticks, at the moment when the pass
  that rendered zero has run the expiry effect and the render of what that effect queued
  is still to come.
\<close>

definition afterExpiry :: app where
  "afterExpiry = commit (handler Tick (ticks 1499 (dispatch StartPause (commit initial))))"

definition breakAtZero :: app where
  "breakAtZero =
     \<lparr>st = \<lparr>phase = Break, timeLeft = 0, isRunning = True, completedPomodoros = 2,
             flash = False\<rparr>,
      autoRestartRef = False,
      rendered = Some \<lparr>phase = Break, timeLeft = 1, isRunning = True,
             completedPomodoros = 2, flash = False\<rparr>,
      interval = Some 1000, flashTimeout = None, beeps = 5\<rparr>"

section \<open>One render pass\<close>

lemmas setters = setPhase_def setTimeLeft_def setIsRunning_def setCompletedPomodoros_def
  setFlash_def playBeep_def

lemmas effects = countdownEffect_def expiryEffect_def autoRestartEffect_def flashEffect_def

lemmas deps = countdownDeps_def expiryDeps_def autoRestartDeps_def flashDeps_def

lemmas durations = FOCUS_DURATION_def BREAK_DURATION_def

lemma rendered_commit: "rendered (commit w) = Some (st w)"
  by (simp add: commit_def Let_def)

lemma st_commit:
  "st (commit w) =
    (if expires w
     then (if phase (st w) = Focus
           then (st w)\<lparr>isRunning := False, flash := True, phase := Break,
                  timeLeft := BREAK_DURATION\<rparr>
           else (st w)\<lparr>isRunning := False, flash := True,
                  completedPomodoros := completedPomodoros (st w) + 1, phase := Focus,
                  timeLeft := FOCUS_DURATION\<rparr>)
     else if restarts w then (st w)\<lparr>isRunning := True\<rparr>
     else st w)"
  by (simp add: commit_def Let_def effects setters expires_def restarts_def)

lemma ref_commit:
  "autoRestartRef (commit w) =
    (if expires w then True else if restarts w then False else autoRestartRef w)"
  by (simp add: commit_def Let_def effects setters expires_def restarts_def)

lemma beeps_commit: "beeps (commit w) = (if expires w then Suc (beeps w) else beeps w)"
  by (simp add: commit_def Let_def effects setters expires_def)

lemma interval_commit:
  "interval (commit w) =
    (if countdownDeps (rendered w) (st w)
     then (if isRunning (st w) then Some 1000 else None)
     else interval w)"
  by (simp add: commit_def Let_def effects setters)

lemma flashTimeout_commit:
  "flashTimeout (commit w) =
    (if flashDeps (rendered w) (st w)
     then (if flash (st w) then Some 800 else None)
     else flashTimeout w)"
  by (simp add: commit_def Let_def effects setters)

lemma passes_commit: "\<not> stable w \<Longrightarrow> passes (commit w) < passes w"
  unfolding passes_def stable_def rendered_commit st_commit ref_commit expires_def
    restarts_def
  by (auto simp: deps durations split: option.splits)

termination settle
  by (relation "measure passes") (simp_all add: passes_commit)

declare settle.simps [simp del]

lemma commit_stable: "stable w \<Longrightarrow> commit w = w"
  by (simp add: stable_def commit_def Let_def deps)

lemma settle_stable: "stable w \<Longrightarrow> settle w = w"
  by (simp add: settle.simps)

lemma settle_commit: "settle (commit w) = settle w"
  by (cases "stable w") (simp_all add: commit_stable settle.simps [of w])

lemma stable_settle: "stable (settle w)"
  by (induction w rule: settle.induct) (simp add: settle.simps)

lemma settle_quiet: "\<not> expires w \<Longrightarrow> \<not> restarts w \<Longrightarrow> settle w = commit w"
proof (cases "stable w")
  case True
  then show ?thesis by (simp add: commit_stable settle_stable)
next
  case False
  assume "\<not> expires w" "\<not> restarts w"
  then have "stable (commit w)"
    by (simp add: stable_def rendered_commit st_commit)
  then have "settle (commit w) = commit w"
    by (rule settle_stable)
  then show ?thesis
    by (simp add: settle_commit)
qed

section \<open>Invariants\<close>

lemma lastRender_stable: "stable w \<Longrightarrow> lastRender w = st w"
  by (simp add: lastRender_def stable_def)

lemma stable_rendered: "stable w \<Longrightarrow> rendered w \<noteq> None"
  by (simp add: stable_def)

text \<open>The effects keep the bound of the time left by the length of the current phase.\<close>

lemma bounded_commit: "bounded (st w) \<Longrightarrow> bounded (st (commit w))"
  by (auto simp: st_commit bounded_def initialDuration_def isFocus_def durations)

lemma bounded_settle: "bounded (st w) \<Longrightarrow> bounded (st (settle w))"
proof (induction w rule: settle.induct)
  case (1 w)
  show ?case
  proof (cases "stable w")
    case True
    with "1.prems" show ?thesis by (simp add: settle_stable)
  next
    case False
    with 1 show ?thesis
      by (simp add: settle.simps [of w] bounded_commit)
  qed
qed

subsection \<open>Of every reachable state\<close>

lemma coherent_initial: "coherent initial"
  by (simp add: coherent_def initial_def durations)

lemma coherent_commit: "coherent w \<Longrightarrow> coherent (commit w)"
  unfolding coherent_def rendered_commit st_commit interval_commit expires_def restarts_def
  by (auto simp: deps durations split: option.splits if_splits)

lemma coherent_handler: "coherent w \<Longrightarrow> coherent (handler e w)"
  by (cases e)
    (auto simp: coherent_def lastRender_def isFocus_def tickCallback_def flashCallback_def
      handleStartPause_def handleSkip_def handleReset_def setters durations Let_def
      split: option.splits if_splits)

lemma reachable_coherent: "reachable w \<Longrightarrow> coherent w"
  by (induction rule: reachable.induct)
    (simp_all add: coherent_initial coherent_commit coherent_handler)

lemma coherent_stable:
  "coherent w \<Longrightarrow> stable w \<Longrightarrow>
    0 \<le> timeLeft (st w) \<and> (isRunning (st w) \<longrightarrow> 0 < timeLeft (st w)) \<and>
    interval w = (if isRunning (st w) then Some 1000 else None)"
  by (auto simp: coherent_def stable_def split: if_splits)

lemma reachable_settle: "reachable w \<Longrightarrow> reachable (settle w)"
proof (induction w rule: settle.induct)
  case (1 w)
  show ?case
  proof (cases "stable w")
    case True
    with "1.prems" show ?thesis by (simp add: settle_stable)
  next
    case False
    with 1 show ?thesis
      by (simp add: settle.simps [of w] reachable.pass)
  qed
qed

lemma reachable_dispatch: "reachable w \<Longrightarrow> stable w \<Longrightarrow> reachable (dispatch e w)"
  by (simp add: dispatch_def reachable_settle reachable.event stable_rendered)

lemma reachable_mounted: "reachable (commit initial)"
  by (rule reachable.pass) (rule reachable.start)

lemma stable_mounted: "stable (commit initial)"
  by (simp add: stable_def rendered_commit st_commit expires_def restarts_def initial_def
      durations)

lemma reachable_ticks:
  "reachable w \<Longrightarrow> stable w \<Longrightarrow> reachable (ticks k w) \<and> stable (ticks k w)"
  by (induction k) (simp_all add: ticks_def reachable_dispatch, simp add: dispatch_def stable_settle)

subsection \<open>Of every state of an orderly run\<close>

lemma orderly_reachable: "orderly w \<Longrightarrow> reachable w"
  by (induction rule: orderly.induct)
    (simp_all add: reachable.start reachable.pass reachable.event stable_rendered)

lemma consistent_initial: "consistent initial"
  by (simp add: consistent_def initial_def bounded_def initialDuration_def isFocus_def durations)

lemma consistent_commit: "consistent w \<Longrightarrow> consistent (commit w)"
  unfolding consistent_def rendered_commit st_commit ref_commit interval_commit expires_def
    restarts_def
  by (auto simp: deps bounded_def initialDuration_def isFocus_def durations split: option.splits)

lemma consistent_handler: "consistent w \<Longrightarrow> stable w \<Longrightarrow> consistent (handler e w)"
  by (cases e)
    (auto simp: consistent_def stable_def lastRender_def bounded_def initialDuration_def
      isFocus_def tickCallback_def flashCallback_def handleStartPause_def handleSkip_def
      handleReset_def setters durations Let_def split: if_splits)

lemma orderly_consistent: "orderly w \<Longrightarrow> consistent w"
  by (induction rule: orderly.induct)
    (simp_all add: consistent_initial consistent_commit consistent_handler)

lemma consistent_stable:
  "consistent w \<Longrightarrow> stable w \<Longrightarrow>
    0 < timeLeft (st w) \<and> \<not> autoRestartRef w \<and>
    interval w = (if isRunning (st w) then Some 1000 else None)"
  by (auto simp: consistent_def stable_def bounded_def)

lemma orderly_mounted: "orderly (commit initial)"
  by (rule orderly.pass) (rule orderly.start)

text \<open>In an orderly run the time left never exceeds the length of the current phase.\<close>

lemma orderly_bounded: "orderly w \<Longrightarrow> bounded (st w)"
  using orderly_consistent [of w] by (simp add: consistent_def)

section \<open>Skip and reset\<close>

lemma quiet_handleSkip: "\<not> expires (handleSkip w) \<and> \<not> restarts (handleSkip w)"
  by (simp add: expires_def restarts_def handleSkip_def setters Let_def durations)

lemma st_dispatch_Skip: "st (dispatch Skip w) = st (handleSkip w)"
  by (simp add: dispatch_def settle_quiet quiet_handleSkip st_commit)

lemma quiet_handleReset: "\<not> expires (handleReset w) \<and> \<not> restarts (handleReset w)"
  by (simp add: expires_def restarts_def handleReset_def setters Let_def durations)

lemma dispatch_Reset: "dispatch Reset w = commit (handleReset w)"
  by (simp add: dispatch_def settle_quiet quiet_handleReset)

lemma st_dispatch_Reset: "st (dispatch Reset w) = st (handleReset w)"
  by (simp add: dispatch_Reset quiet_handleReset st_commit)

section \<open>Natural expiry\<close>

text \<open>The three passes of a natural expiry.\<close>

lemma expiry_pass:
  assumes "expires w"
  shows "st (commit w) = (expired (st w))\<lparr>isRunning := False\<rparr>"
    and "autoRestartRef (commit w)"
    and "restarts (commit w)"
    and "\<not> expires (commit w)"
    and "beeps (commit w) = Suc (beeps w)"
proof -
  from assms have r: "isRunning (st w)"
    by (simp add: expires_def)
  from assms show s: "st (commit w) = (expired (st w))\<lparr>isRunning := False\<rparr>"
    by (simp add: st_commit expired_def)
  from assms show a: "autoRestartRef (commit w)"
    by (simp add: ref_commit)
  from r s a show "restarts (commit w)"
    by (simp add: restarts_def rendered_commit autoRestartDeps_def)
  from s show "\<not> expires (commit w)"
    by (simp add: expires_def expired_def durations)
  from assms show "beeps (commit w) = Suc (beeps w)"
    by (simp add: beeps_commit)
qed

lemma restart_pass:
  assumes "restarts w" "\<not> expires w"
  shows "st (commit w) = (st w)\<lparr>isRunning := True\<rparr>"
    and "\<not> autoRestartRef (commit w)"
    and "beeps (commit w) = beeps w"
    and "interval (commit (commit w)) = Some 1000"
  using assms
  by (simp_all add: st_commit ref_commit beeps_commit interval_commit rendered_commit
      restarts_def countdownDeps_def)

lemma expiry_settle:
  assumes "expires w"
  shows "settle w = commit (commit (commit w))"
    and "st (settle w) = expired (st w)"
    and "\<not> autoRestartRef (settle w)"
    and "beeps (settle w) = Suc (beeps w)"
    and "interval (settle w) = Some 1000"
proof -
  let ?a = "commit w"
  let ?b = "commit ?a"
  note a = expiry_pass [OF assms]
  note b = restart_pass [OF a(3) a(4)]
  have sb: "st ?b = expired (st w)"
    by (simp add: b(1) a(1)) (simp add: expired_def)
  have q: "\<not> expires ?b" "\<not> restarts ?b"
    using b(2) by (simp_all add: expires_def restarts_def sb expired_def durations)
  have "settle w = settle ?b"
    by (simp add: settle_commit)
  with q show e: "settle w = commit (commit (commit w))"
    by (simp add: settle_quiet)
  from q show "st (settle w) = expired (st w)"
    by (simp add: e st_commit [of ?b] sb)
  from q b(2) show "\<not> autoRestartRef (settle w)"
    by (simp add: e ref_commit [of ?b])
  from q show "beeps (settle w) = Suc (beeps w)"
    by (simp add: e beeps_commit [of ?b] b(3) a(5))
  show "interval (settle w) = Some 1000"
    by (simp add: e b(4))
qed

lemma expiry_flashTimeout:
  assumes "expires w" "\<not> flash (st w)"
  shows "flashTimeout (settle w) = Some 800"
proof -
  let ?a = "commit w"
  let ?b = "commit ?a"
  note a = expiry_pass [OF assms(1)]
  note b = restart_pass [OF a(3) a(4)]
  have "flashTimeout ?b = Some 800"
    using assms(2)
    by (simp add: flashTimeout_commit [of ?a] rendered_commit a(1) flashDeps_def expired_def)
  moreover have "\<not> flashDeps (rendered ?b) (st ?b)"
    by (simp add: rendered_commit b(1) flashDeps_def)
  ultimately show ?thesis
    by (simp add: expiry_settle(1) [OF assms(1)] flashTimeout_commit [of ?b])
qed

lemma expired_timeLeft: "expired (s\<lparr>timeLeft := t\<rparr>) = expired s"
  by (simp add: expired_def)

section \<open>Counting down\<close>

lemma handler_Tick: "interval w \<noteq> None \<Longrightarrow> handler Tick w = tickCallback w"
  by (cases "interval w") simp_all

lemma tick_step:
  assumes "stable w" "interval w \<noteq> None" "isRunning (st w)" "1 < timeLeft (st w)"
  shows "dispatch Tick w =
    w\<lparr>st := (st w)\<lparr>timeLeft := timeLeft (st w) - 1\<rparr>,
      rendered := Some ((st w)\<lparr>timeLeft := timeLeft (st w) - 1\<rparr>)\<rparr>"
proof -
  let ?v = "tickCallback w"
  from assms(2) have h: "handler Tick w = ?v"
    by (rule handler_Tick)
  from assms have v: "?v = w\<lparr>st := (st w)\<lparr>timeLeft := timeLeft (st w) - 1\<rparr>\<rparr>"
    by (simp add: tickCallback_def setTimeLeft_def)
  from assms have q: "\<not> expires ?v" "\<not> restarts ?v"
    by (simp_all add: v expires_def restarts_def)
  from assms have c: "commit ?v = ?v\<lparr>rendered := Some (st ?v)\<rparr>"
    by (simp add: v commit_def Let_def deps effects stable_def)
  have "dispatch Tick w = settle ?v"
    by (simp only: dispatch_def h)
  also from q have "\<dots> = commit ?v"
    by (rule settle_quiet)
  finally show ?thesis
    by (simp only: c) (simp add: v)
qed

lemma ticks_countdown:
  assumes "stable w" "interval w \<noteq> None" "isRunning (st w)"
  shows "int k < timeLeft (st w) \<Longrightarrow>
    ticks k w =
      w\<lparr>st := (st w)\<lparr>timeLeft := timeLeft (st w) - int k\<rparr>,
        rendered := Some ((st w)\<lparr>timeLeft := timeLeft (st w) - int k\<rparr>)\<rparr>"
proof (induction k)
  case 0
  from assms(1) show ?case
    by (simp add: ticks_def stable_def)
next
  case (Suc k)
  let ?v = "w\<lparr>st := (st w)\<lparr>timeLeft := timeLeft (st w) - int k\<rparr>,
        rendered := Some ((st w)\<lparr>timeLeft := timeLeft (st w) - int k\<rparr>)\<rparr>"
  from Suc have v: "ticks k w = ?v"
    by simp
  have "ticks (Suc k) w = dispatch Tick (ticks k w)"
    by (simp add: ticks_def)
  also have "\<dots> = dispatch Tick ?v"
    by (simp only: v)
  also have "\<dots> = ?v\<lparr>st := (st ?v)\<lparr>timeLeft := timeLeft (st ?v) - 1\<rparr>,
      rendered := Some ((st ?v)\<lparr>timeLeft := timeLeft (st ?v) - 1\<rparr>)\<rparr>"
    using assms Suc.prems by (intro tick_step) (simp_all add: stable_def)
  finally show ?case
    by (simp add: algebra_simps)
qed

lemma last_tick:
  assumes "stable w" "interval w \<noteq> None" "isRunning (st w)" "timeLeft (st w) = 1"
  shows "expires (handler Tick w)"
    and "expired (st (handler Tick w)) = expired (st w)"
    and "beeps (handler Tick w) = beeps w"
    and "flash (st (handler Tick w)) = flash (st w)"
  using assms
  by (simp_all add: handler_Tick [OF assms(2)] tickCallback_def setTimeLeft_def expires_def
      expiryDeps_def stable_def expired_def)

lemma before_expiry:
  assumes "stable w" "interval w \<noteq> None" "isRunning (st w)" "int k < timeLeft (st w)"
  shows "st (ticks k w) = (st w)\<lparr>timeLeft := timeLeft (st w) - int k\<rparr>"
    and "beeps (ticks k w) = beeps w"
    and "stable (ticks k w)"
    and "interval (ticks k w) = interval w"
    and "flashTimeout (ticks k w) = flashTimeout w"
  by (simp_all add: ticks_countdown [OF assms] stable_def)

lemma run_to_expiry:
  assumes "stable w" "interval w \<noteq> None" "isRunning (st w)" "0 < timeLeft (st w)"
  shows "st (ticks (nat (timeLeft (st w))) w) = expired (st w)"
    and "beeps (ticks (nat (timeLeft (st w))) w) = Suc (beeps w)"
    and "stable (ticks (nat (timeLeft (st w))) w)"
    and "interval (ticks (nat (timeLeft (st w))) w) = Some 1000"
    and "\<not> autoRestartRef (ticks (nat (timeLeft (st w))) w)"
    and "\<not> flash (st w) \<Longrightarrow> flashTimeout (ticks (nat (timeLeft (st w))) w) = Some 800"
proof -
  define m where "m = nat (timeLeft (st w)) - 1"
  let ?v = "ticks m w"
  from assms(4) have n: "nat (timeLeft (st w)) = Suc m" and m: "int m < timeLeft (st w)"
    and t: "timeLeft (st w) - int m = 1"
    by (simp_all add: m_def)
  note v = before_expiry [OF assms(1-3) m]
  have e: "ticks (nat (timeLeft (st w))) w = settle (handler Tick ?v)"
    by (simp add: n ticks_def dispatch_def)
  have i: "interval ?v \<noteq> None"
    by (simp add: v(4) assms(2))
  have "isRunning (st ?v)" "timeLeft (st ?v) = 1"
    by (simp_all add: v(1) assms(3) t)
  note l = last_tick [OF v(3) i this]
  note x = expiry_settle [OF l(1)]
  show "st (ticks (nat (timeLeft (st w))) w) = expired (st w)"
    by (simp only: e x(2) l(2) v(1) expired_timeLeft)
  show "beeps (ticks (nat (timeLeft (st w))) w) = Suc (beeps w)"
    by (simp only: e x(4) l(3) v(2))
  show "stable (ticks (nat (timeLeft (st w))) w)"
    by (simp add: e stable_settle)
  show "interval (ticks (nat (timeLeft (st w))) w) = Some 1000"
    by (simp only: e x(5))
  show "\<not> autoRestartRef (ticks (nat (timeLeft (st w))) w)"
    by (simp only: e x(3) not_False_eq_True)
  show "flashTimeout (ticks (nat (timeLeft (st w))) w) = Some 800" if "\<not> flash (st w)"
  proof -
    from that have "\<not> flash (st (handler Tick ?v))"
      by (simp only: l(4) v(1)) simp
    with l(1) show ?thesis
      unfolding e by (rule expiry_flashTimeout)
  qed
qed

lemma start_from_idle:
  assumes "stable w" "\<not> isRunning (st w)" "timeLeft (st w) \<noteq> 0"
  shows "st (dispatch StartPause w) = (st w)\<lparr>isRunning := True\<rparr>"
    and "beeps (dispatch StartPause w) = beeps w"
    and "stable (dispatch StartPause w)"
    and "interval (dispatch StartPause w) = Some 1000"
proof -
  let ?v = "handleStartPause w"
  from assms have v: "st ?v = (st w)\<lparr>isRunning := True\<rparr>" "rendered ?v = Some (st w)"
      "beeps ?v = beeps w"
    by (simp_all add: handleStartPause_def setters stable_def)
  from assms have q: "\<not> expires ?v" "\<not> restarts ?v"
    by (simp_all add: expires_def restarts_def v)
  then have d: "dispatch StartPause w = commit ?v"
    by (simp add: dispatch_def settle_quiet)
  from q show "st (dispatch StartPause w) = (st w)\<lparr>isRunning := True\<rparr>"
    by (simp add: d st_commit v)
  from q show "beeps (dispatch StartPause w) = beeps w"
    by (simp add: d beeps_commit v)
  show "stable (dispatch StartPause w)"
    by (simp add: dispatch_def stable_settle)
  from assms(2) show "interval (dispatch StartPause w) = Some 1000"
    by (simp add: d interval_commit v countdownDeps_def)
qed

lemma flash_clear:
  assumes "flashTimeout w \<noteq> None" "timeLeft (st w) \<noteq> 0" "\<not> autoRestartRef w"
  shows "st (dispatch FlashExpired w) = (st w)\<lparr>flash := False\<rparr>"
    and "beeps (dispatch FlashExpired w) = beeps w"
proof -
  let ?v = "flashCallback (w\<lparr>flashTimeout := None\<rparr>)"
  from assms(1) have h: "handler FlashExpired w = ?v"
    by (cases "flashTimeout w") simp_all
  have v: "st ?v = (st w)\<lparr>flash := False\<rparr>" "autoRestartRef ?v = autoRestartRef w"
      "beeps ?v = beeps w"
    by (simp_all add: flashCallback_def setters)
  from assms have q: "\<not> expires ?v" "\<not> restarts ?v"
    by (simp_all add: expires_def restarts_def v)
  have "dispatch FlashExpired w = settle ?v"
    by (simp only: dispatch_def h)
  also from q have "\<dots> = commit ?v"
    by (rule settle_quiet)
  finally have d: "dispatch FlashExpired w = commit ?v" .
  from q show "st (dispatch FlashExpired w) = (st w)\<lparr>flash := False\<rparr>"
    by (simp only: d st_commit [of ?v] v if_False)
  from q show "beeps (dispatch FlashExpired w) = beeps w"
    by (simp only: d beeps_commit [of ?v] v if_False)
qed

lemma breakRunning_facts:
  "reachable breakRunning" "stable breakRunning"
  "st breakRunning = \<lparr>phase = Break, timeLeft = 300, isRunning = True,
     completedPomodoros = 0, flash = False\<rparr>"
proof -
  let ?m = "commit initial"
  let ?s = "dispatch Skip ?m"
  have m: "st ?m = st initial"
    by (simp add: st_commit expires_def restarts_def initial_def durations)
  have r: "reachable ?s"
    by (simp add: reachable_dispatch reachable_mounted stable_mounted)
  have s: "stable ?s"
    by (simp add: dispatch_def stable_settle)
  have t: "st ?s = \<lparr>phase = Break, timeLeft = 300, isRunning = False,
     completedPomodoros = 0, flash = False\<rparr>"
    by (simp add: st_dispatch_Skip handleSkip_def lastRender_stable [OF stable_mounted]
        setters Let_def m)
      (simp add: initial_def durations)
  then have "\<not> isRunning (st ?s)" "timeLeft (st ?s) \<noteq> 0"
    by simp_all
  note a = start_from_idle [OF s this]
  from r s show "reachable breakRunning"
    by (simp add: breakRunning_def reachable_dispatch)
  show "stable breakRunning"
    by (simp add: breakRunning_def a(3))
  show "st breakRunning = \<lparr>phase = Break, timeLeft = 300, isRunning = True,
     completedPomodoros = 0, flash = False\<rparr>"
    by (simp add: breakRunning_def a(1) t)
qed

lemma afterExpiry_facts:
  "reachable afterExpiry"
  "st afterExpiry = \<lparr>phase = Break, timeLeft = 300, isRunning = False,
     completedPomodoros = 0, flash = True\<rparr>"
  "rendered afterExpiry = Some \<lparr>phase = Focus, timeLeft = 0, isRunning = True,
     completedPomodoros = 0, flash = False\<rparr>"
  "autoRestartRef afterExpiry"
proof -
  let ?m = "commit initial"
  let ?a = "dispatch StartPause ?m"
  let ?v = "ticks 1499 ?a"
  have m: "st ?m = st initial"
    by (simp add: st_commit expires_def restarts_def initial_def durations)
  then have "\<not> isRunning (st ?m)" "timeLeft (st ?m) \<noteq> 0"
    by (simp_all add: initial_def durations)
  note a = start_from_idle [OF stable_mounted this]
  have sa: "st ?a = \<lparr>phase = Focus, timeLeft = 1500, isRunning = True,
     completedPomodoros = 0, flash = False\<rparr>"
    by (simp add: a(1) m) (simp add: initial_def durations)
  have ra: "reachable ?a"
    by (simp add: reachable_dispatch reachable_mounted stable_mounted)
  note rv = reachable_ticks [OF ra a(3), of 1499]
  have i: "interval ?a \<noteq> None"
    by (simp add: a(4))
  have r: "isRunning (st ?a)"
    by (simp add: sa)
  have "int 1499 < timeLeft (st ?a)"
    by (simp add: sa)
  note b = before_expiry [OF a(3) i r this]
  have sv: "st ?v = \<lparr>phase = Focus, timeLeft = 1, isRunning = True,
     completedPomodoros = 0, flash = False\<rparr>"
    by (simp add: b(1) sa)
  have iv: "interval ?v \<noteq> None"
    by (simp add: b(4) i)
  have "isRunning (st ?v)" "timeLeft (st ?v) = 1"
    by (simp_all add: sv)
  note l = last_tick [OF b(3) iv this]
  note p = expiry_pass [OF l(1)]
  have h: "handler Tick ?v = tickCallback ?v"
    using iv by (rule handler_Tick)
  have sh: "st (handler Tick ?v) = \<lparr>phase = Focus, timeLeft = 0, isRunning = True,
     completedPomodoros = 0, flash = False\<rparr>"
    by (simp only: h) (simp add: tickCallback_def setTimeLeft_def sv)
  from b(3) have "rendered ?v \<noteq> None"
    by (rule stable_rendered)
  with rv [THEN conjunct1] have "reachable (handler Tick ?v)"
    by (rule reachable.event)
  then show "reachable afterExpiry"
    unfolding afterExpiry_def by (rule reachable.pass)
  show "st afterExpiry = \<lparr>phase = Break, timeLeft = 300, isRunning = False,
     completedPomodoros = 0, flash = True\<rparr>"
    unfolding afterExpiry_def by (simp only: p(1) sh) (simp add: expired_def durations)
  show "rendered afterExpiry = Some \<lparr>phase = Focus, timeLeft = 0, isRunning = True,
     completedPomodoros = 0, flash = False\<rparr>"
    unfolding afterExpiry_def by (simp only: rendered_commit sh)
  show "autoRestartRef afterExpiry"
    unfolding afterExpiry_def by (rule p(2))
qed

text \<open>
  What a click on skip and a click on reset do when no pass is pending: the last render
  shows the cells, and the handlers act on the current phase.
\<close>

lemma skip_stable:
  assumes "stable w"
  shows "st (dispatch Skip w) =
      (st w)\<lparr>phase := (if phase (st w) = Focus then Break else Focus),
        timeLeft := (if phase (st w) = Focus then 300 else 1500)\<rparr>"
    and "beeps (dispatch Skip w) = beeps w"
proof -
  have d: "dispatch Skip w = commit (handleSkip w)"
    by (simp add: dispatch_def settle_quiet quiet_handleSkip)
  from assms show "st (dispatch Skip w) =
      (st w)\<lparr>phase := (if phase (st w) = Focus then Break else Focus),
        timeLeft := (if phase (st w) = Focus then 300 else 1500)\<rparr>"
    by (simp add: st_dispatch_Skip handleSkip_def lastRender_stable setters Let_def durations)
  show "beeps (dispatch Skip w) = beeps w"
    by (simp add: d beeps_commit quiet_handleSkip) (simp add: handleSkip_def setters Let_def)
qed

lemma reset_stable:
  assumes "stable w"
  shows "st (dispatch Reset w) =
      (st w)\<lparr>isRunning := False, timeLeft := initialDuration (st w)\<rparr>"
    and "beeps (dispatch Reset w) = beeps w"
    and "dispatch Reset (dispatch Reset w) = dispatch Reset w"
proof -
  let ?v = "dispatch Reset w"
  from assms show t: "st ?v = (st w)\<lparr>isRunning := False, timeLeft := initialDuration (st w)\<rparr>"
    by (simp add: st_dispatch_Reset handleReset_def lastRender_stable setters Let_def
        initialDuration_def)
  show "beeps ?v = beeps w"
    by (simp add: dispatch_Reset beeps_commit quiet_handleReset)
      (simp add: handleReset_def setters Let_def)
  have s: "stable ?v"
    by (simp add: dispatch_def stable_settle)
  have r: "\<not> autoRestartRef ?v"
    by (simp add: dispatch_Reset ref_commit quiet_handleReset)
      (simp add: handleReset_def setters Let_def)
  from t have "\<not> isRunning (st ?v) \<and> timeLeft (st ?v) = initialDuration (st ?v)"
    by (simp add: initialDuration_def isFocus_def)
  with r have "handleReset ?v = ?v"
    by (simp add: handleReset_def lastRender_stable [OF s] setters Let_def
        initialDuration_def)
  with s show "dispatch Reset ?v = ?v"
    by (simp add: dispatch_def [of Reset ?v] settle_stable)
qed

text \<open>On a dividend that is not negative the remainder of JavaScript is \<open>mod\<close>.\<close>

lemma js_rem_nonneg: "0 \<le> a \<Longrightarrow> 0 < b \<Longrightarrow> js_rem a b = a mod b"
  by (cases "a = 0") (simp_all add: js_rem_def)

section \<open>The claims\<close>

text \<open>
  C1. The claim: in every reachable state the time left is at least zero and at most the
  full length of the current phase. The component breaks it. A fresh component, a click
  on start and 1500 ticks lead to the pass that runs the expiry effect; a click on reset
  that arrives before the render of what that effect queued reads \<open>isFocus\<close> of the
  render that showed the focus phase, and sets 1500 seconds while the queued phase is the
  break phase. The state that follows is reachable, has no pass pending, and shows the
  break phase with 1500 seconds left, five times the length of a break.
\<close>

theorem reset_while_pending_unbounded:
  "reachable (dispatch Reset afterExpiry) \<and> stable (dispatch Reset afterExpiry) \<and>
   phase (st (dispatch Reset afterExpiry)) = Break \<and>
   initialDuration (st (dispatch Reset afterExpiry)) = 300 \<and>
   timeLeft (st (dispatch Reset afterExpiry)) = 1500 \<and>
   \<not> bounded (st (dispatch Reset afterExpiry))"
proof -
  note u = afterExpiry_facts
  from u(3) have "rendered afterExpiry \<noteq> None"
    by simp
  with u(1) have "reachable (handler Reset afterExpiry)"
    by (rule reachable.event)
  then have r: "reachable (dispatch Reset afterExpiry)"
    by (simp only: dispatch_def reachable_settle)
  have s: "stable (dispatch Reset afterExpiry)"
    by (simp add: dispatch_def stable_settle)
  have t: "st (dispatch Reset afterExpiry) = \<lparr>phase = Break, timeLeft = 1500,
      isRunning = False, completedPomodoros = 0, flash = True\<rparr>"
    by (simp add: st_dispatch_Reset handleReset_def lastRender_def isFocus_def setters
        Let_def u(2) u(3) durations)
  from r s show ?thesis
    by (simp add: t bounded_def initialDuration_def isFocus_def durations)
qed

text \<open>
  C2. Take a state with no render pass pending that shows the focus phase at 1500
  seconds, not running, the flash off, and click start. During the first 1499 ticks
  nothing expires: after \<open>k < 1500\<close> ticks the phase is still the focus phase with
  \<open>1500 - k\<close> seconds left, running, the flash off, and \<open>playBeep\<close> has not been called.
  The pass that renders zero after tick 1500 is the one natural expiry: it leaves the
  break phase at 300 seconds, stopped, with the restart signal raised and \<open>playBeep\<close>
  called once. When the passes after tick 1500 are through, the state is the break phase
  at 300 seconds, running again, the signal consumed, the count of completed sessions
  unchanged, \<open>playBeep\<close> called exactly once, the flash on and a timeout of 800 ms
  pending; when that timeout fires, the flash is off, nothing else of the state has
  changed, and \<open>playBeep\<close> has still been called once.
\<close>

theorem focus_session:
  assumes "stable w" and "phase (st w) = Focus" and "timeLeft (st w) = 1500"
    and "\<not> isRunning (st w)" and "\<not> flash (st w)"
  shows
    "(\<forall>k<1500.
        let v = ticks k (dispatch StartPause w)
        in phase (st v) = Focus \<and> timeLeft (st v) = 1500 - int k \<and> isRunning (st v) \<and>
           \<not> flash (st v) \<and> beeps v = beeps w) \<and>
     (let u = commit (handler Tick (ticks 1499 (dispatch StartPause w)))
      in phase (st u) = Break \<and> timeLeft (st u) = 300 \<and> \<not> isRunning (st u) \<and>
         autoRestartRef u \<and> beeps u = Suc (beeps w)) \<and>
     (let v = ticks 1500 (dispatch StartPause w)
      in phase (st v) = Break \<and> timeLeft (st v) = 300 \<and> isRunning (st v) \<and>
         \<not> autoRestartRef v \<and> stable v \<and> interval v = Some 1000 \<and>
         completedPomodoros (st v) = completedPomodoros (st w) \<and>
         beeps v = Suc (beeps w) \<and> flash (st v) \<and> flashTimeout v = Some 800 \<and>
         st (dispatch FlashExpired v) = (st v)\<lparr>flash := False\<rparr> \<and>
         beeps (dispatch FlashExpired v) = Suc (beeps w))"
proof -
  let ?a = "dispatch StartPause w"
  from assms(3) have "timeLeft (st w) \<noteq> 0"
    by simp
  note a = start_from_idle [OF assms(1) assms(4) this]
  have i: "interval ?a \<noteq> None"
    by (simp add: a(4))
  have r: "isRunning (st ?a)"
    by (simp add: a(1))
  have t: "timeLeft (st ?a) = 1500"
    by (simp add: a(1) assms(3))
  have before: "phase (st (ticks k ?a)) = Focus \<and> timeLeft (st (ticks k ?a)) = 1500 - int k \<and>
      isRunning (st (ticks k ?a)) \<and> \<not> flash (st (ticks k ?a)) \<and> beeps (ticks k ?a) = beeps w"
    if "k < 1500" for k
  proof -
    from that have "int k < timeLeft (st ?a)"
      by (simp add: t)
    note b = before_expiry [OF a(3) i r this]
    show ?thesis
      by (simp add: b(1) b(2) a(1) a(2) assms)
  qed
  have n: "nat (timeLeft (st ?a)) = 1500"
    by (simp add: t)
  have "0 < timeLeft (st ?a)"
    by (simp add: t)
  note x = run_to_expiry [OF a(3) i r this, unfolded n]
  have f: "\<not> flash (st ?a)"
    by (simp add: a(1) assms(5))
  have stv: "st (ticks 1500 ?a) =
      (st w)\<lparr>isRunning := True, flash := True, phase := Break, timeLeft := 300\<rparr>"
    by (simp add: x(1) a(1) expired_def assms(2) durations)
  have final: "phase (st (ticks 1500 ?a)) = Break \<and> timeLeft (st (ticks 1500 ?a)) = 300 \<and>
      isRunning (st (ticks 1500 ?a)) \<and> \<not> autoRestartRef (ticks 1500 ?a) \<and>
      stable (ticks 1500 ?a) \<and> interval (ticks 1500 ?a) = Some 1000 \<and>
      completedPomodoros (st (ticks 1500 ?a)) = completedPomodoros (st w) \<and>
      beeps (ticks 1500 ?a) = Suc (beeps w) \<and> flash (st (ticks 1500 ?a)) \<and>
      flashTimeout (ticks 1500 ?a) = Some 800"
    by (simp add: stv x(2) x(3) x(4) x(5) x(6) [OF f] a(2))
  then have "flashTimeout (ticks 1500 ?a) \<noteq> None" "timeLeft (st (ticks 1500 ?a)) \<noteq> 0"
      "\<not> autoRestartRef (ticks 1500 ?a)"
    by simp_all
  note c = flash_clear [OF this]
  have cleared: "st (dispatch FlashExpired (ticks 1500 ?a)) = (st (ticks 1500 ?a))\<lparr>flash := False\<rparr> \<and>
      beeps (dispatch FlashExpired (ticks 1500 ?a)) = Suc (beeps w)"
    by (simp only: c x(2) a(2))
  have "int 1499 < timeLeft (st ?a)"
    by (simp add: t)
  note b = before_expiry [OF a(3) i r this]
  have "interval (ticks 1499 ?a) \<noteq> None" "isRunning (st (ticks 1499 ?a))"
      "timeLeft (st (ticks 1499 ?a)) = 1"
    by (simp_all add: b(1) b(4) i r t)
  note l = last_tick [OF b(3) this]
  note p = expiry_pass [OF l(1)]
  have "st (commit (handler Tick (ticks 1499 ?a))) = (expired (st ?a))\<lparr>isRunning := False\<rparr>"
    by (simp only: p(1) l(2) b(1) expired_timeLeft)
  then have middle: "phase (st (commit (handler Tick (ticks 1499 ?a)))) = Break \<and>
      timeLeft (st (commit (handler Tick (ticks 1499 ?a)))) = 300 \<and>
      \<not> isRunning (st (commit (handler Tick (ticks 1499 ?a)))) \<and>
      autoRestartRef (commit (handler Tick (ticks 1499 ?a))) \<and>
      beeps (commit (handler Tick (ticks 1499 ?a))) = Suc (beeps w)"
    using p(2)
    by (simp only: p(5) l(3) b(2) a(2)) (simp add: expired_def a(1) assms(2) durations)
  from before final cleared middle show ?thesis
    unfolding Let_def by blast
qed

theorem focus_session_witness:
  "stable (commit initial) \<and> phase (st (commit initial)) = Focus \<and>
   timeLeft (st (commit initial)) = 1500 \<and> \<not> isRunning (st (commit initial)) \<and>
   \<not> flash (st (commit initial)) \<and>
   timeLeft (st (ticks 1499 (dispatch StartPause (commit initial)))) = 1 \<and>
   beeps (ticks 1499 (dispatch StartPause (commit initial))) = 0 \<and>
   autoRestartRef (commit (handler Tick (ticks 1499 (dispatch StartPause (commit initial))))) \<and>
   phase (st (ticks 1500 (dispatch StartPause (commit initial)))) = Break \<and>
   timeLeft (st (ticks 1500 (dispatch StartPause (commit initial)))) = 300 \<and>
   isRunning (st (ticks 1500 (dispatch StartPause (commit initial)))) \<and>
   completedPomodoros (st (ticks 1500 (dispatch StartPause (commit initial)))) = 0 \<and>
   beeps (ticks 1500 (dispatch StartPause (commit initial))) = 1 \<and>
   flash (st (ticks 1500 (dispatch StartPause (commit initial)))) \<and>
   \<not> flash (st (dispatch FlashExpired (ticks 1500 (dispatch StartPause (commit initial)))))"
proof -
  have s: "st (commit initial) = st initial" and b: "beeps (commit initial) = 0"
    by (simp_all add: st_commit beeps_commit expires_def restarts_def initial_def durations)
  have h: "phase (st (commit initial)) = Focus" "timeLeft (st (commit initial)) = 1500"
      "\<not> isRunning (st (commit initial))" "\<not> flash (st (commit initial))"
      "completedPomodoros (st (commit initial)) = 0"
    by (simp_all add: s) (simp_all add: initial_def durations)
  note f = focus_session [OF stable_mounted h(1-4), unfolded Let_def]
  from f have k: "\<forall>k<1500. timeLeft (st (ticks k (dispatch StartPause (commit initial)))) =
        1500 - int k \<and>
      beeps (ticks k (dispatch StartPause (commit initial))) = beeps (commit initial)"
    by blast
  have "timeLeft (st (ticks 1499 (dispatch StartPause (commit initial)))) = 1 \<and>
      beeps (ticks 1499 (dispatch StartPause (commit initial))) = beeps (commit initial)"
    using k [rule_format, of 1499] by simp
  with f stable_mounted h b show ?thesis
    by simp
qed

text \<open>
  C3. A natural expiry of the break phase adds exactly one to the count of completed
  sessions and ends, after the auto-restart, in the focus phase at 1500 seconds, running.
  This is stated twice. For a reachable state \<open>w\<close> with no pass pending that is running
  in the break phase: while fewer ticks than the time left have come, the count and the
  phase are unchanged, and after as many ticks as the time left the count is one more and
  the timer runs in the focus phase at 1500 seconds. For any state \<open>u\<close> whose next pass
  runs the expiry effect in the break phase: that pass adds one to the count, switches
  to the focus phase at 1500 seconds, stops the timer and raises the restart signal, and
  when all passes are through the count is one more, the timer runs and the signal is
  consumed. From every state \<open>x\<close>, neither a click on skip nor a click on reset (each
  with the passes that follow) changes the count.
\<close>

theorem break_expiry:
  "(reachable w \<and> stable w \<and> isRunning (st w) \<and> phase (st w) = Break \<longrightarrow>
      (\<forall>k. int k < timeLeft (st w) \<longrightarrow>
         completedPomodoros (st (ticks k w)) = completedPomodoros (st w) \<and>
         phase (st (ticks k w)) = Break) \<and>
      (let v = ticks (nat (timeLeft (st w))) w
       in completedPomodoros (st v) = completedPomodoros (st w) + 1 \<and>
          phase (st v) = Focus \<and> timeLeft (st v) = 1500 \<and> isRunning (st v) \<and>
          \<not> autoRestartRef v)) \<and>
   (expires u \<and> phase (st u) = Break \<longrightarrow>
      (let a = commit u
       in completedPomodoros (st a) = completedPomodoros (st u) + 1 \<and>
          phase (st a) = Focus \<and> timeLeft (st a) = 1500 \<and> \<not> isRunning (st a) \<and>
          autoRestartRef a) \<and>
      (let v = settle u
       in completedPomodoros (st v) = completedPomodoros (st u) + 1 \<and>
          phase (st v) = Focus \<and> timeLeft (st v) = 1500 \<and> isRunning (st v) \<and>
          \<not> autoRestartRef v)) \<and>
   completedPomodoros (st (dispatch Skip x)) = completedPomodoros (st x) \<and>
   completedPomodoros (st (dispatch Reset x)) = completedPomodoros (st x)"
proof -
  have run: "(\<forall>k. int k < timeLeft (st w) \<longrightarrow>
         completedPomodoros (st (ticks k w)) = completedPomodoros (st w) \<and>
         phase (st (ticks k w)) = Break) \<and>
      (let v = ticks (nat (timeLeft (st w))) w
       in completedPomodoros (st v) = completedPomodoros (st w) + 1 \<and>
          phase (st v) = Focus \<and> timeLeft (st v) = 1500 \<and> isRunning (st v) \<and>
          \<not> autoRestartRef v)"
    if h: "reachable w" "stable w" "isRunning (st w)" "phase (st w) = Break"
  proof -
    from h(1) have "coherent w"
      by (rule reachable_coherent)
    from coherent_stable [OF this h(2)] h(3)
    have i: "interval w \<noteq> None" and t: "0 < timeLeft (st w)"
      by simp_all
    have "completedPomodoros (st (ticks k w)) = completedPomodoros (st w) \<and>
        phase (st (ticks k w)) = Break" if "int k < timeLeft (st w)" for k
      by (simp add: before_expiry(1) [OF h(2) i h(3) that] h(4))
    moreover note x = run_to_expiry [OF h(2) i h(3) t]
    ultimately show ?thesis
      by (simp add: Let_def x(1) x(5) expired_def h(4) durations)
  qed
  have pass: "(let a = commit u
       in completedPomodoros (st a) = completedPomodoros (st u) + 1 \<and>
          phase (st a) = Focus \<and> timeLeft (st a) = 1500 \<and> \<not> isRunning (st a) \<and>
          autoRestartRef a) \<and>
      (let v = settle u
       in completedPomodoros (st v) = completedPomodoros (st u) + 1 \<and>
          phase (st v) = Focus \<and> timeLeft (st v) = 1500 \<and> isRunning (st v) \<and>
          \<not> autoRestartRef v)"
    if h: "expires u" "phase (st u) = Break"
  proof -
    note p = expiry_pass [OF h(1)]
    note x = expiry_settle [OF h(1)]
    from p(2) show ?thesis
      by (simp add: Let_def p(1) x(2) x(3) expired_def h(2) durations)
  qed
  have "completedPomodoros (st (dispatch Skip x)) = completedPomodoros (st x)"
    by (simp add: st_dispatch_Skip handleSkip_def setters Let_def)
  moreover have "completedPomodoros (st (dispatch Reset x)) = completedPomodoros (st x)"
    by (simp add: st_dispatch_Reset handleReset_def setters Let_def)
  ultimately show ?thesis
    using run pass by blast
qed

theorem break_expiry_witness:
  "reachable breakRunning \<and> stable breakRunning \<and> isRunning (st breakRunning) \<and>
   phase (st breakRunning) = Break \<and> timeLeft (st breakRunning) = 300 \<and>
   completedPomodoros (st breakRunning) = 0 \<and>
   completedPomodoros (st (ticks 299 breakRunning)) = 0 \<and>
   completedPomodoros (st (ticks 300 breakRunning)) = 1 \<and>
   phase (st (ticks 300 breakRunning)) = Focus \<and>
   timeLeft (st (ticks 300 breakRunning)) = 1500 \<and>
   isRunning (st (ticks 300 breakRunning)) \<and>
   expires breakAtZero \<and> phase (st breakAtZero) = Break \<and>
   completedPomodoros (st (commit breakAtZero)) = 3 \<and>
   autoRestartRef (commit breakAtZero) \<and>
   completedPomodoros (st (settle breakAtZero)) = 3 \<and>
   phase (st (settle breakAtZero)) = Focus \<and>
   timeLeft (st (settle breakAtZero)) = 1500 \<and>
   isRunning (st (settle breakAtZero)) \<and>
   completedPomodoros (st (dispatch Skip breakAtZero)) = 2 \<and>
   completedPomodoros (st (dispatch Reset breakAtZero)) = 2"
proof -
  note b = breakRunning_facts
  have f: "isRunning (st breakRunning)" "phase (st breakRunning) = Break"
      "timeLeft (st breakRunning) = 300" "completedPomodoros (st breakRunning) = 0"
    by (simp_all add: b(3))
  have z: "expires breakAtZero" "phase (st breakAtZero) = Break"
      "completedPomodoros (st breakAtZero) = 2"
    by (simp_all add: breakAtZero_def expires_def expiryDeps_def)
  note e = break_expiry [of breakRunning breakAtZero breakAtZero, unfolded Let_def]
  from e b(1) b(2) f have k: "\<forall>k. int k < timeLeft (st breakRunning) \<longrightarrow>
      completedPomodoros (st (ticks k breakRunning)) = completedPomodoros (st breakRunning)"
    by blast
  have "completedPomodoros (st (ticks 299 breakRunning)) = 0"
    using k [rule_format, of 299] by (simp add: f)
  with e b(1) b(2) f z show ?thesis
    by simp
qed

text \<open>
  C4. The claim: from every state, skip switches to the other phase at its full length
  and leaves the running flag as it was. The component breaks it when the click arrives
  while a render is pending, because \<open>handleSkip\<close> branches on the phase of the last
  render. At the state after the expiry pass of a focus session the cells hold the break
  phase at 300 seconds, stopped, with the restart signal raised, and the last render
  showed the focus phase, running. A click on skip there leaves the break phase at 300
  seconds instead of switching to the focus phase at 1500, and takes the restart signal
  back, so that the timer, which the user saw running, ends stopped.
\<close>

theorem skip_while_pending:
  "phase (st afterExpiry) = Break \<and> isRunning (lastRender afterExpiry) \<and>
   phase (lastRender afterExpiry) = Focus \<and>
   phase (st (dispatch Skip afterExpiry)) = Break \<and>
   timeLeft (st (dispatch Skip afterExpiry)) = 300 \<and>
   \<not> isRunning (st (dispatch Skip afterExpiry)) \<and>
   stable (dispatch Skip afterExpiry)"
proof -
  note u = afterExpiry_facts
  have t: "st (dispatch Skip afterExpiry) = \<lparr>phase = Break, timeLeft = 300,
      isRunning = False, completedPomodoros = 0, flash = True\<rparr>"
    by (simp add: st_dispatch_Skip handleSkip_def lastRender_def setters Let_def u(2) u(3)
        durations)
  have "stable (dispatch Skip afterExpiry)"
    by (simp add: dispatch_def stable_settle)
  then show ?thesis
    by (simp add: t u(2) u(3) lastRender_def)
qed

text \<open>
  C5. The claim: from every state, reset stops the timer and sets the time left to the
  full length of the current phase. The component breaks it when the click arrives while
  a render is pending, because \<open>handleReset\<close> reads \<open>isFocus\<close> of the last render. At
  the state after the expiry pass of a focus session the current phase is the break
  phase and the last render showed the focus phase: a click on reset there sets the time
  left to 1500, the length of a focus phase, and the phase stays the break phase, whose
  length is 300.
\<close>

theorem reset_while_pending:
  "phase (st afterExpiry) = Break \<and> isFocus (lastRender afterExpiry) \<and>
   phase (st (dispatch Reset afterExpiry)) = Break \<and>
   \<not> isRunning (st (dispatch Reset afterExpiry)) \<and>
   timeLeft (st (dispatch Reset afterExpiry)) = FOCUS_DURATION \<and>
   timeLeft (st (dispatch Reset afterExpiry)) \<noteq>
     initialDuration (st (dispatch Reset afterExpiry))"
proof -
  note u = afterExpiry_facts
  have "st (dispatch Reset afterExpiry) = \<lparr>phase = Break, timeLeft = FOCUS_DURATION,
      isRunning = False, completedPomodoros = 0, flash = True\<rparr>"
    by (simp add: st_dispatch_Reset handleReset_def lastRender_def isFocus_def setters
        Let_def u(2) u(3))
  then show ?thesis
    by (simp add: u(2) u(3) lastRender_def isFocus_def initialDuration_def durations)
qed



text \<open>
  C7. The label of the main button is the pause label exactly when the timer is running,
  the start label exactly when it is not running and the time left is the full length of
  the current phase (1500 in the focus phase, 300 in the break phase), and the resume
  label exactly when it is not running and the time left is anything else.
\<close>

theorem startLabel_cases:
  "(startLabel s = LABEL_PAUSE \<longleftrightarrow> isRunning s) \<and>
   (startLabel s = LABEL_START \<longleftrightarrow>
      \<not> isRunning s \<and> timeLeft s = (if phase s = Focus then 1500 else 300)) \<and>
   (startLabel s = LABEL_RESUME \<longleftrightarrow>
      \<not> isRunning s \<and> timeLeft s \<noteq> (if phase s = Focus then 1500 else 300))"
  by (simp add: startLabel_def LABEL_PAUSE_def LABEL_START_def LABEL_RESUME_def
      initialDuration_def isFocus_def durations)

text \<open>
  C8. For a count of completed sessions that is not negative, the number of filled dots
  is 4 when the count is positive and divisible by 4, and the count modulo 4 otherwise;
  for the counts 0, 1, 2, 3, 4, 5 it is 0, 1, 2, 3, 4, 1.
\<close>

theorem filledDots_cases:
  "0 \<le> completedPomodoros s \<Longrightarrow>
    filledDots s =
      (if completedPomodoros s > 0 \<and> completedPomodoros s mod 4 = 0 then 4
       else completedPomodoros s mod 4) \<and>
    map (\<lambda>c. filledDots (s\<lparr>completedPomodoros := c\<rparr>)) [0, 1, 2, 3, 4, 5] =
      [0, 1, 2, 3, 4, 1]"
proof -
  assume "0 \<le> completedPomodoros s"
  then have "cyclePos s = completedPomodoros s mod 4"
    by (simp add: cyclePos_def js_rem_nonneg)
  then have "filledDots s =
      (if completedPomodoros s > 0 \<and> completedPomodoros s mod 4 = 0 then 4
       else completedPomodoros s mod 4)"
    by (simp add: filledDots_def)
  moreover have "map (\<lambda>c. filledDots (s\<lparr>completedPomodoros := c\<rparr>)) [0, 1, 2, 3, 4, 5] =
      [0, 1, 2, 3, 4, 1]"
    by (simp add: filledDots_def cyclePos_def js_rem_def)
  ultimately show ?thesis
    by simp
qed

theorem filledDots_cases_witness:
  "(0::int) \<le> 8 \<and>
   filledDots \<lparr>phase = Focus, timeLeft = 1500, isRunning = False, completedPomodoros = 8,
     flash = False\<rparr> = 4"
  using filledDots_cases [of "\<lparr>phase = Focus, timeLeft = 1500, isRunning = False,
     completedPomodoros = 8, flash = False\<rparr>"]
  by simp

text \<open>
  C9. The claim: reset twice is reset once. The component breaks it when the first click
  arrives while a render is pending. At the state after the expiry pass of a focus
  session the first click on reset leaves the break phase with 1500 seconds; once that is
  rendered, the second click reads the break phase and sets 300 seconds.
\<close>

theorem reset_twice_while_pending:
  "timeLeft (st (dispatch Reset afterExpiry)) = 1500 \<and>
   timeLeft (st (dispatch Reset (dispatch Reset afterExpiry))) = 300 \<and>
   phase (st (dispatch Reset (dispatch Reset afterExpiry))) = Break \<and>
   dispatch Reset (dispatch Reset afterExpiry) \<noteq> dispatch Reset afterExpiry"
proof -
  note u = afterExpiry_facts
  let ?v = "dispatch Reset afterExpiry"
  have t: "st ?v = \<lparr>phase = Break, timeLeft = 1500, isRunning = False,
      completedPomodoros = 0, flash = True\<rparr>"
    by (simp add: st_dispatch_Reset handleReset_def lastRender_def isFocus_def setters
        Let_def u(2) u(3) durations)
  have "stable ?v"
    by (simp add: dispatch_def stable_settle)
  note r = reset_stable(1) [OF this]
  have t2: "st (dispatch Reset ?v) = \<lparr>phase = Break, timeLeft = 300, isRunning = False,
      completedPomodoros = 0, flash = True\<rparr>"
    by (simp add: r t initialDuration_def isFocus_def durations)
  have "timeLeft (st (dispatch Reset ?v)) \<noteq> timeLeft (st ?v)"
    by (simp add: t t2)
  then have "dispatch Reset ?v \<noteq> ?v"
    by auto
  then show ?thesis
    by (simp add: t t2)
qed

text \<open>
  C10. A click on start/pause negates the running flag and changes nothing else. The
  handler does so in every state. With the render passes that follow, it does so in
  every state of an orderly run with no pass pending: the phase, the time left, the
  count of completed sessions and the flash are as before, and \<open>playBeep\<close> was not
  called.
\<close>

theorem startPause_frame:
  "handleStartPause w = w\<lparr>st := (st w)\<lparr>isRunning := \<not> isRunning (st w)\<rparr>\<rparr> \<and>
   (orderly w \<and> stable w \<longrightarrow>
      isRunning (st (dispatch StartPause w)) = (\<not> isRunning (st w)) \<and>
      phase (st (dispatch StartPause w)) = phase (st w) \<and>
      timeLeft (st (dispatch StartPause w)) = timeLeft (st w) \<and>
      completedPomodoros (st (dispatch StartPause w)) = completedPomodoros (st w) \<and>
      flash (st (dispatch StartPause w)) = flash (st w) \<and>
      beeps (dispatch StartPause w) = beeps w)"
proof -
  let ?v = "handleStartPause w"
  have h: "?v = w\<lparr>st := (st w)\<lparr>isRunning := \<not> isRunning (st w)\<rparr>\<rparr>"
    by (simp add: handleStartPause_def setIsRunning_def)
  have "isRunning (st (dispatch StartPause w)) = (\<not> isRunning (st w)) \<and>
      phase (st (dispatch StartPause w)) = phase (st w) \<and>
      timeLeft (st (dispatch StartPause w)) = timeLeft (st w) \<and>
      completedPomodoros (st (dispatch StartPause w)) = completedPomodoros (st w) \<and>
      flash (st (dispatch StartPause w)) = flash (st w) \<and>
      beeps (dispatch StartPause w) = beeps w"
    if "orderly w" and s: "stable w"
  proof -
    from that have c: "consistent w"
      by (simp add: orderly_consistent)
    have v: "st ?v = (st w)\<lparr>isRunning := \<not> isRunning (st w)\<rparr>"
        "autoRestartRef ?v = autoRestartRef w" "beeps ?v = beeps w"
      by (simp_all add: h)
    from consistent_stable [OF c s] have q: "\<not> expires ?v \<and> \<not> restarts ?v"
      by (simp add: expires_def restarts_def v)
    then have "dispatch StartPause w = commit ?v"
      by (simp add: dispatch_def settle_quiet)
    with q v show ?thesis
      by (simp add: st_commit beeps_commit)
  qed
  with h show ?thesis
    by blast
qed

theorem startPause_frame_witness:
  "orderly (commit initial) \<and> stable (commit initial) \<and>
   isRunning (st (dispatch StartPause (commit initial))) \<and>
   phase (st (dispatch StartPause (commit initial))) = Focus \<and>
   timeLeft (st (dispatch StartPause (commit initial))) = 1500 \<and>
   completedPomodoros (st (dispatch StartPause (commit initial))) = 0 \<and>
   \<not> flash (st (dispatch StartPause (commit initial))) \<and>
   beeps (dispatch StartPause (commit initial)) = 0"
proof -
  have f: "st (commit initial) = st initial" "beeps (commit initial) = 0"
    by (simp_all add: st_commit beeps_commit expires_def restarts_def initial_def durations)
  show ?thesis
    using startPause_frame [of "commit initial"] orderly_mounted stable_mounted f
    by (simp add: initial_def durations)
qed

end
